theory Spec2Isabelle
  imports Main "HOL-Library.Sublist" "HOL-Library.AList"
begin

section \<open>The reviewer-assignment engine of auto-assign-reviewers/index.js\<close>

text \<open>
  The model follows \<^verbatim>\<open>src/auto-assign-reviewers/index.js\<close>: the glob matcher
  \<^verbatim>\<open>matchPattern\<close> (lines 11-35) and the part of \<^verbatim>\<open>run\<close> that works on data already
  in memory (lines 89-153): rule evaluation, score accumulation, the defaults fallback and
  the final sort and cut.

  A JavaScript string is modelled as a \<^typ>\<open>string\<close>; a \<^typ>\<open>char\<close> stands for one code unit
  in the range 0..255. An exception thrown inside \<^verbatim>\<open>run\<close> is a value \<open>Inl e\<close>; the
  source catches it at line 176 and fails the action.
\<close>

datatype error = TypeError | SyntaxError | RangeError

subsection \<open>String.prototype.replace with a global pattern\<close>

text \<open>
  \<^verbatim>\<open>s.replace(/[...]/g, f)\<close> for a character class: every code unit of the class is replaced,
  the others are kept.
\<close>

definition replace_class :: "(char \<Rightarrow> bool) \<Rightarrow> (char \<Rightarrow> string) \<Rightarrow> string \<Rightarrow> string" where
  "replace_class cls f s = concat (map (\<lambda>c. if cls c then f c else [c]) s)"

text \<open>
  \<^verbatim>\<open>s.replace(/lit/g, rep)\<close> for a pattern that is a literal, non-empty text: the occurrences
  are found from left to right and do not overlap; the search resumes after each occurrence.
  (The replacement texts used below contain no \<^verbatim>\<open>$\<close>, so they are inserted as they are.)
\<close>

fun replace_lit :: "string \<Rightarrow> string \<Rightarrow> string \<Rightarrow> string" where
  "replace_lit lit rep [] = []"
| "replace_lit lit rep (c # cs) =
     (if lit \<noteq> [] \<and> prefix lit (c # cs)
      then rep @ replace_lit lit rep (drop (length lit - 1) cs)
      else c # replace_lit lit rep cs)"

subsection \<open>The regular expressions that matchPattern builds\<close>

text \<open>
  The characters with a syntactic role in an ECMAScript pattern (\<^verbatim>\<open>SyntaxCharacter\<close>).
\<close>

definition syntax_char :: "char \<Rightarrow> bool" where
  "syntax_char c \<longleftrightarrow> c \<in> set (CHR 0x5C # ''^$.*+?()[]{}|'')"

text \<open>
  A single-character matcher: a literal character, \<^verbatim>\<open>.\<close> (any character but a line
  terminator; there is no \<^verbatim>\<open>s\<close> flag), and the negated class \<^verbatim>\<open>[^/]\<close>. Of the four
  line terminators of ECMAScript, LF and CR lie in the range of \<^typ>\<open>char\<close>; U+2028 and
  U+2029 do not.
\<close>

datatype atom = Chr char | Dot | NotSlash

datatype rx = Atom atom | Star atom | Bol | Eol | Alt "rx list" "rx list"

definition line_terminator :: "char \<Rightarrow> bool" where
  "line_terminator c \<longleftrightarrow> c = CHR 0x0A \<or> c = CHR 0x0D"

fun atom_ok :: "atom \<Rightarrow> char \<Rightarrow> bool" where
  "atom_ok (Chr d) c = (c = d)"
| "atom_ok Dot c = (\<not> line_terminator c)"
| "atom_ok NotSlash c = (c \<noteq> CHR ''/'')"

text \<open>
  \<^verbatim>\<open>new RegExp(src)\<close>, on the part of the pattern syntax that \<^verbatim>\<open>matchPattern\<close> can
  reach. First the source text is cut into tokens, then a \<^verbatim>\<open>*\<close> is attached to the atom
  before it. \<open>None\<close> stands for a text that is rejected (a \<^verbatim>\<open>SyntaxError\<close>) or lies
  outside this part of the syntax; \<open>RegExp_regexStr\<close> below shows that \<^verbatim>\<open>matchPattern\<close>
  never produces one.
\<close>

datatype tok = TAtom atom | TStar | TBol | TEol | TGroup

fun lex :: "string \<Rightarrow> tok list option" where
  "lex [] = Some []"
| "lex (c # cs) =
     (if c = CHR 0x5C then
        (case cs of
           [] \<Rightarrow> None
         | d # ds \<Rightarrow> if syntax_char d then map_option (Cons (TAtom (Chr d))) (lex ds) else None)
      else if c = CHR ''.'' then map_option (Cons (TAtom Dot)) (lex cs)
      else if c = CHR ''['' then
        (case cs of
           c1 # c2 # c3 # ds \<Rightarrow>
             if [c1, c2, c3] = ''^/]'' then map_option (Cons (TAtom NotSlash)) (lex ds) else None
         | _ \<Rightarrow> None)
      else if c = CHR ''('' then
        (case cs of
           c1 # c2 # c3 # c4 # ds \<Rightarrow>
             if [c1, c2, c3, c4] = ''^|/)'' then map_option (Cons TGroup) (lex ds) else None
         | _ \<Rightarrow> None)
      else if c = CHR ''*'' then map_option (Cons TStar) (lex cs)
      else if c = CHR ''^'' then map_option (Cons TBol) (lex cs)
      else if c = CHR ''$'' then map_option (Cons TEol) (lex cs)
      else if syntax_char c then None
      else map_option (Cons (TAtom (Chr c))) (lex cs))"

fun build :: "tok list \<Rightarrow> rx list option" where
  "build [] = Some []"
| "build (TAtom a # TStar # ts) = map_option (Cons (Star a)) (build ts)"
| "build (TAtom a # ts) = map_option (Cons (Atom a)) (build ts)"
| "build (TStar # ts) = None"
| "build (TBol # ts) = map_option (Cons Bol) (build ts)"
| "build (TEol # ts) = map_option (Cons Eol) (build ts)"
| "build (TGroup # ts) = map_option (Cons (Alt [Bol] [Atom (Chr (CHR ''/''))])) (build ts)"

text \<open>
  A regular expression that is well formed can still be too large for the engine that
  runs the action, which then throws instead of matching. How large is too large is a
  matter of the engine, not of the source: it is a parameter \<open>limit\<close> of the model,
  which gives the exception for an expression that the engine refuses and \<open>None\<close> for
  one that it runs.
\<close>

type_synonym engine_limit = "rx list \<Rightarrow> error option"

definition RegExp :: "engine_limit \<Rightarrow> string \<Rightarrow> error + rx list" where
  "RegExp limit src =
     (case lex src of
        None \<Rightarrow> Inl SyntaxError
      | Some ts \<Rightarrow>
          (case build ts of
             None \<Rightarrow> Inl SyntaxError
           | Some regex \<Rightarrow> (case limit regex of Some e \<Rightarrow> Inl e | None \<Rightarrow> Inr regex)))"

text \<open>
  The limit of V8, the engine of Node.js, that a long literal text reaches: its compiler
  refuses a run of more than 32767 single-character terms in a row (literal characters,
  \<^verbatim>\<open>.\<close> and classes without a quantifier) with the \<^verbatim>\<open>SyntaxError\<close> "Regular expression
  too large". A quantified term, an assertion and a group end a run. \<open>longest_run r n\<close>
  is the length of the longest run of \<open>r\<close>, where \<open>n\<close> terms of a run precede \<open>r\<close>.
  \<open>v8_limit\<close> is this limit alone. It serves for the concrete inputs below, which are
  far from any limit; whatever else an engine refuses (V8 also gives up on an expression
  that is too deep for its stack) is covered by the statements that hold for every
  \<open>limit\<close>.
\<close>

fun longest_run :: "rx list \<Rightarrow> nat \<Rightarrow> nat" where
  "longest_run [] n = n"
| "longest_run (Atom a # ts) n = longest_run ts (Suc n)"
| "longest_run (Star a # ts) n = max n (longest_run ts 0)"
| "longest_run (Bol # ts) n = max n (longest_run ts 0)"
| "longest_run (Eol # ts) n = max n (longest_run ts 0)"
| "longest_run (Alt xs ys # ts) n =
     max n (max (longest_run xs 0) (max (longest_run ys 0) (longest_run ts 0)))"

definition v8_limit :: engine_limit where
  "v8_limit regex = (if 32767 < int (longest_run regex 0) then Some SyntaxError else None)"

text \<open>
  Matching a sequence of terms at one position of the input. \<open>at_start\<close> says whether the
  position is index 0 (what \<^verbatim>\<open>^\<close> asks; there is no \<^verbatim>\<open>m\<close> flag), \<open>s\<close> is the input from
  the position on. A star first tries one more character, then the rest of the pattern.
\<close>

function matches :: "rx list \<Rightarrow> bool \<Rightarrow> string \<Rightarrow> bool" where
  "matches [] at_start s = True"
| "matches (Atom a # ts) at_start s =
     (case s of [] \<Rightarrow> False | c # cs \<Rightarrow> atom_ok a c \<and> matches ts False cs)"
| "matches (Star a # ts) at_start s =
     ((case s of [] \<Rightarrow> False | c # cs \<Rightarrow> atom_ok a c \<and> matches (Star a # ts) False cs)
      \<or> matches ts at_start s)"
| "matches (Bol # ts) at_start s = (at_start \<and> matches ts at_start s)"
| "matches (Eol # ts) at_start s = (s = [] \<and> matches ts at_start s)"
| "matches (Alt xs ys # ts) at_start s =
     (matches (xs @ ts) at_start s \<or> matches (ys @ ts) at_start s)"
  by pat_completeness auto
termination
  by (relation "measure (\<lambda>(ts, b, s). size_list size ts + length s)") auto

text \<open>
  \<^verbatim>\<open>regex.test(s)\<close> without flags: a match is looked for at index 0, then 1, and so on up
  to the end of the input.
\<close>

fun search :: "rx list \<Rightarrow> bool \<Rightarrow> string \<Rightarrow> bool" where
  "search r at_start [] = matches r at_start []"
| "search r at_start (c # cs) = (matches r at_start (c # cs) \<or> search r False cs)"

definition test :: "rx list \<Rightarrow> string \<Rightarrow> bool" where
  "test r s = search r True s"

subsection \<open>matchPattern\<close>

text \<open>
  Line 15: the class \<^verbatim>\<open>[.+^${}()|[\]\\]\<close> of the characters that get a backslash in front.
\<close>

definition regex_special :: "char \<Rightarrow> bool" where
  "regex_special c \<longleftrightarrow> c \<in> set (''.+^${}()|[]'' @ [CHR 0x5C])"

text \<open>
  Lines 13-31: the five replacements in the order of the source, the prefix \<^verbatim>\<open>(^|/)\<close> for a
  pattern that does not start with \<^verbatim>\<open>/\<close>, and the final \<^verbatim>\<open>$\<close>.
\<close>

definition regexStr :: "string \<Rightarrow> string" where
  "regexStr pattern =
     (let s1 = replace_class regex_special (\<lambda>c. [CHR 0x5C, c]) pattern;
          s2 = replace_lit ''**'' ''{{GLOBSTAR}}'' s1;
          s3 = replace_lit ''*'' ''[^/]*'' s2;
          s4 = replace_lit ''?'' ''[^/]'' s3;
          s5 = replace_lit ''{{GLOBSTAR}}'' ''.*'' s4;
          s6 = (if \<not> prefix ''/'' pattern then ''(^|/)'' @ s5 else s5)
      in s6 @ ''$'')"

text \<open>
  Lines 33-34: compile, then \<^verbatim>\<open>regex.test(filePath)\<close>. Nothing inside \<^verbatim>\<open>matchPattern\<close>
  catches what the engine throws.
\<close>

definition matchPattern :: "engine_limit \<Rightarrow> string \<Rightarrow> string \<Rightarrow> error + bool" where
  "matchPattern limit filePath pattern =
     (case RegExp limit (regexStr pattern) of
        Inl e \<Rightarrow> Inl e
      | Inr regex \<Rightarrow> Inr (test regex filePath))"

subsection \<open>Configuration values\<close>

text \<open>
  What \<^verbatim>\<open>yaml.load\<close> can put into a field of the configuration, as far as the code
  tells the cases apart: a missing key (\<^verbatim>\<open>undefined\<close>), \<^verbatim>\<open>null\<close>, a string, a sequence.
  (Numbers, booleans and mappings behave like \<^verbatim>\<open>null\<close> wherever the code calls a string
  or array method on them; they are left out.)
\<close>

datatype jsval = Undefined | Null | Str string | Arr "jsval list"

record rule =
  patterns :: jsval
  users :: jsval

text \<open>
  \<^verbatim>\<open>String.prototype.toLowerCase\<close> on code units 0..255: the letters A-Z and the
  Latin-1 capitals (0xC0-0xDE without 0xD7) move up by 32, everything else stays.
\<close>

definition lower_unit :: "char \<Rightarrow> char" where
  "lower_unit c =
     (let n = (of_char c :: nat)
      in if (65 \<le> n \<and> n \<le> 90) \<or> (192 \<le> n \<and> n \<le> 222 \<and> n \<noteq> 215) then char_of (n + 32) else c)"

definition toLowerCase :: "string \<Rightarrow> string" where
  "toLowerCase s = map lower_unit s"

text \<open>The truth value of a configuration value in a condition (line 125).\<close>

definition truthy :: "jsval \<Rightarrow> bool" where
  "truthy v = (case v of Undefined \<Rightarrow> False | Null \<Rightarrow> False | Str s \<Rightarrow> s \<noteq> [] | Arr xs \<Rightarrow> True)"

text \<open>Lines 93-96: \<^verbatim>\<open>Array.isArray(v) ? v : [v]\<close>.\<close>

definition as_array :: "jsval \<Rightarrow> jsval list" where
  "as_array v = (case v of Arr xs \<Rightarrow> xs | _ \<Rightarrow> [v])"

subsection \<open>Rule evaluation (lines 90-119)\<close>

text \<open>
  \<^verbatim>\<open>matchPattern(file, pattern)\<close> as line 101 calls it, with whatever the configuration holds
  as the pattern: only a string has a \<^verbatim>\<open>replace\<close> method, so line 13 throws a
  \<^verbatim>\<open>TypeError\<close> for anything else.
\<close>

fun matchPattern_value :: "engine_limit \<Rightarrow> string \<Rightarrow> jsval \<Rightarrow> error + bool" where
  "matchPattern_value limit filePath (Str pattern) = matchPattern limit filePath pattern"
| "matchPattern_value limit filePath _ = Inl TypeError"

text \<open>Lines 100-105: the inner loop over the patterns of a rule, left at the first match.\<close>

fun patterns_match :: "engine_limit \<Rightarrow> string \<Rightarrow> jsval list \<Rightarrow> error + bool" where
  "patterns_match limit file [] = Inr False"
| "patterns_match limit file (pattern # rest) =
     (case matchPattern_value limit file pattern of
        Inl e \<Rightarrow> Inl e
      | Inr m \<Rightarrow> if m then Inr True else patterns_match limit file rest)"

text \<open>Lines 98-107: the outer loop over the changed files, left at the first match.\<close>

fun rule_matched :: "engine_limit \<Rightarrow> string list \<Rightarrow> jsval list \<Rightarrow> error + bool" where
  "rule_matched limit [] pats = Inr False"
| "rule_matched limit (file # rest) pats =
     (case patterns_match limit file pats of
        Inl e \<Rightarrow> Inl e
      | Inr m \<Rightarrow> if m then Inr True else rule_matched limit rest pats)"

text \<open>
  \<^verbatim>\<open>reviewerScores\<close> is a \<^verbatim>\<open>Map\<close>: it keeps its keys in the order of their first
  insertion, and setting an existing key leaves it in place. That is an association list
  under \<^const>\<open>AList.update\<close>. Keys are compared as they are written (no case folding).
\<close>

type_synonym scores = "(string \<times> nat) list"

text \<open>Line 115: \<^verbatim>\<open>reviewerScores.get(reviewer) || 0\<close>.\<close>

definition get_score :: "scores \<Rightarrow> string \<Rightarrow> nat" where
  "get_score m k = (case map_of m k of None \<Rightarrow> 0 | Some n \<Rightarrow> n)"

text \<open>
  Lines 110-117: the loop over the users of a matched rule. \<^verbatim>\<open>reviewer.toLowerCase()\<close>
  throws a \<^verbatim>\<open>TypeError\<close> when the entry is not a string.
\<close>

fun add_reviewers :: "string \<Rightarrow> jsval list \<Rightarrow> scores \<Rightarrow> error + scores" where
  "add_reviewers prAuthor [] reviewerScores = Inr reviewerScores"
| "add_reviewers prAuthor (Str reviewer # rest) reviewerScores =
     (if toLowerCase reviewer = toLowerCase prAuthor
      then add_reviewers prAuthor rest reviewerScores
      else add_reviewers prAuthor rest
             (AList.update reviewer (get_score reviewerScores reviewer + 1) reviewerScores))"
| "add_reviewers prAuthor (_ # rest) reviewerScores = Inl TypeError"

text \<open>Lines 92-119: the loop over the rules.\<close>

fun eval_rules ::
  "engine_limit \<Rightarrow> string list \<Rightarrow> string \<Rightarrow> rule list \<Rightarrow> scores \<Rightarrow> error + scores" where
  "eval_rules limit changedFiles prAuthor [] reviewerScores = Inr reviewerScores"
| "eval_rules limit changedFiles prAuthor (r # rest) reviewerScores =
     (case rule_matched limit changedFiles (as_array (patterns r)) of
        Inl e \<Rightarrow> Inl e
      | Inr matched \<Rightarrow>
          if matched then
            (case add_reviewers prAuthor (as_array (users r)) reviewerScores of
               Inl e \<Rightarrow> Inl e
             | Inr reviewerScores' \<Rightarrow> eval_rules limit changedFiles prAuthor rest reviewerScores')
          else eval_rules limit changedFiles prAuthor rest reviewerScores)"

subsection \<open>Selection (lines 121-153)\<close>

text \<open>
  \<^verbatim>\<open>xs.slice(0, end)\<close>. \<^verbatim>\<open>maxReviewers\<close> comes from \<^verbatim>\<open>parseInt\<close>: an integer, or
  \<^verbatim>\<open>NaN\<close> (here \<open>None\<close>), which \<^verbatim>\<open>slice\<close> reads as 0. A negative \<open>end\<close> counts
  from the end of the array.
\<close>

definition slice0 :: "'a list \<Rightarrow> int option \<Rightarrow> 'a list" where
  "slice0 xs end =
     (let len = int (length xs);
          relativeEnd = (case end of None \<Rightarrow> 0 | Some n \<Rightarrow> n);
          final = (if relativeEnd < 0 then max (len + relativeEnd) 0 else min relativeEnd len)
      in take (nat final) xs)"

text \<open>
  Lines 126-128: \<^verbatim>\<open>filter\<close> calls \<^verbatim>\<open>r.toLowerCase()\<close> on every entry; an entry that is
  not a string throws.
\<close>

fun filter_defaults :: "string \<Rightarrow> jsval list \<Rightarrow> error + string list" where
  "filter_defaults prAuthor [] = Inr []"
| "filter_defaults prAuthor (Str r # rest) =
     (case filter_defaults prAuthor rest of
        Inl e \<Rightarrow> Inl e
      | Inr kept \<Rightarrow> Inr (if toLowerCase r \<noteq> toLowerCase prAuthor then r # kept else kept))"
| "filter_defaults prAuthor (_ # rest) = Inl TypeError"

text \<open>
  Line 151: \<^verbatim>\<open>sort((a, b) => b[1] - a[1])\<close>. \<^verbatim>\<open>Array.prototype.sort\<close> is stable, and so
  is \<^const>\<open>sort_key\<close>: entries with equal scores keep their order.
\<close>

definition sorted_by_score :: "scores \<Rightarrow> scores" where
  "sorted_by_score entries = sort_key (\<lambda>e. - int (snd e)) entries"

text \<open>
  Lines 89-165 of \<^verbatim>\<open>run\<close>. The inputs are the names of the changed files (line 86),
  \<^verbatim>\<open>config.reviewers\<close>, the value of \<^verbatim>\<open>config.defaults && config.defaults.reviewers\<close>,
  the login of the author (line 52) and \<^verbatim>\<open>maxReviewers\<close> (line 41). The result is the
  list of reviewers that is requested and written to the output \<^verbatim>\<open>assigned-reviewers\<close>
  (empty where the source sets the output to the empty string). \<open>limit\<close> is the limit of
  the engine that runs the action.
\<close>

definition run ::
  "engine_limit \<Rightarrow> string list \<Rightarrow> rule list \<Rightarrow> jsval \<Rightarrow> string \<Rightarrow> int option \<Rightarrow>
   error + string list" where
  "run limit changedFiles reviewers default_reviewers prAuthor maxReviewers =
     (case eval_rules limit changedFiles prAuthor reviewers [] of
        Inl e \<Rightarrow> Inl e
      | Inr reviewerScores \<Rightarrow>
          if length reviewerScores = 0 then
            (if truthy default_reviewers then
               (case default_reviewers of
                  Arr ds \<Rightarrow>
                    (case filter_defaults prAuthor ds of
                       Inl e \<Rightarrow> Inl e
                     | Inr defaults \<Rightarrow>
                         let selected = slice0 defaults maxReviewers
                         in if length selected > 0 then Inr selected else Inr [])
                | _ \<Rightarrow> Inl TypeError)
             else Inr [])
          else Inr (slice0 (map fst (sorted_by_score reviewerScores)) maxReviewers))"

subsection \<open>The users of the matching rules\<close>

text \<open>
  Not part of the program: the statements below use these to name the users that the
  matching rules list. \<open>strings_of\<close> keeps the entries of a sequence that are strings;
  \<open>matched_users\<close> collects the users of every rule that some changed file matches.
\<close>

fun strings_of :: "jsval list \<Rightarrow> string list" where
  "strings_of [] = []"
| "strings_of (Str s # rest) = s # strings_of rest"
| "strings_of (_ # rest) = strings_of rest"

definition matched_users :: "engine_limit \<Rightarrow> string list \<Rightarrow> rule list \<Rightarrow> string list" where
  "matched_users limit changedFiles reviewers =
     concat (map (\<lambda>r. if rule_matched limit changedFiles (as_array (patterns r)) = Inr True
                        then strings_of (as_array (users r)) else []) reviewers)"

subsection \<open>The glob reading of a pattern\<close>












section \<open>What matchPattern compiles a pattern to\<close>




























































section \<open>Rule evaluation and selection\<close>

text \<open>
  The keys of the score table are the users of the matching rules other than the author
  (\<open>eval_rules_keys\<close>) and they are distinct (\<open>eval_rules_distinct\<close>); sorting and
  cutting keep both. \<open>run_Inr_cases\<close> tells the three ways in which \<^const>\<open>run\<close>
  returns a list.
\<close>

lemma set_strings_of: "set (strings_of vs) = {s. Str s \<in> set vs}"
  by (induction vs rule: strings_of.induct) auto

lemma keys_update: "fst ` set (AList.update k v al) = insert k (fst ` set al)"
  by (simp add: dom_update)

lemma add_reviewers_keys:
  "add_reviewers a us sc = Inr sc' \<Longrightarrow>
   fst ` set sc' = fst ` set sc \<union> {u \<in> set (strings_of us). toLowerCase u \<noteq> toLowerCase a}"
proof (induction a us sc rule: add_reviewers.induct)
  case (1 a sc)
  then show ?case by simp
next
  case (2 a reviewer rest sc)
  show ?case
  proof (cases "toLowerCase reviewer = toLowerCase a")
    case True
    with 2 show ?thesis by auto
  next
    case False
    with 2 have "fst ` set sc' =
        fst ` set (AList.update reviewer (get_score sc reviewer + 1) sc) \<union>
        {u \<in> set (strings_of rest). toLowerCase u \<noteq> toLowerCase a}"
      by simp
    with False show ?thesis by (auto simp: keys_update)
  qed
qed simp_all

lemma add_reviewers_distinct:
  "add_reviewers a us sc = Inr sc' \<Longrightarrow> distinct (map fst sc) \<Longrightarrow> distinct (map fst sc')"
  by (induction a us sc rule: add_reviewers.induct) (auto simp: distinct_update split: if_splits)

lemma eval_rules_keys:
  "eval_rules lim fs a rules sc = Inr sc' \<Longrightarrow>
   fst ` set sc' = fst ` set sc \<union> {u \<in> set (matched_users lim fs rules). toLowerCase u \<noteq> toLowerCase a}"
proof (induction rules arbitrary: sc)
  case Nil
  then show ?case by (simp add: matched_users_def)
next
  case (Cons r rules)
  from Cons.prems obtain m where m: "rule_matched lim fs (as_array (patterns r)) = Inr m"
    by (auto split: sum.splits)
  show ?case
  proof (cases m)
    case True
    with m Cons.prems obtain sc1 where
      sc1: "add_reviewers a (as_array (users r)) sc = Inr sc1" "eval_rules lim fs a rules sc1 = Inr sc'"
      by (auto split: sum.splits)
    from Cons.IH [OF sc1(2)] add_reviewers_keys [OF sc1(1)] m True
    show ?thesis by (auto simp: matched_users_def)
  next
    case False
    with m Cons.prems have "eval_rules lim fs a rules sc = Inr sc'" by simp
    from Cons.IH [OF this] m False show ?thesis by (auto simp: matched_users_def)
  qed
qed

lemma eval_rules_distinct:
  "eval_rules lim fs a rules sc = Inr sc' \<Longrightarrow> distinct (map fst sc) \<Longrightarrow> distinct (map fst sc')"
proof (induction rules arbitrary: sc)
  case Nil
  then show ?case by simp
next
  case (Cons r rules)
  then show ?case
    by (auto split: sum.splits if_splits dest: add_reviewers_distinct)
qed

lemma set_sorted_by_score: "set (map fst (sorted_by_score sc)) = fst ` set sc"
  by (simp add: sorted_by_score_def)

lemma distinct_map_insort_key:
  "distinct (map g (insort_key f x xs)) \<longleftrightarrow> g x \<notin> g ` set xs \<and> distinct (map g xs)"
  by (induction xs) (auto simp: set_insort_key)

lemma distinct_map_sort_key: "distinct (map g (sort_key f xs)) \<longleftrightarrow> distinct (map g xs)"
  by (induction xs) (auto simp: distinct_map_insort_key)

lemma distinct_sorted_by_score:
  "distinct (map fst sc) \<Longrightarrow> distinct (map fst (sorted_by_score sc))"
  by (simp add: sorted_by_score_def distinct_map_sort_key)

lemma set_slice0: "set (slice0 xs e) \<subseteq> set xs"
  by (simp add: slice0_def Let_def set_take_subset)

lemma distinct_slice0: "distinct xs \<Longrightarrow> distinct (slice0 xs e)"
  by (simp add: slice0_def Let_def)

lemma length_slice0: "0 \<le> m \<Longrightarrow> int (length (slice0 xs (Some m))) \<le> m"
  by (simp add: slice0_def Let_def)

lemma filter_defaults_eq:
  "filter_defaults a ds = Inr kept \<Longrightarrow>
   kept = filter (\<lambda>r. toLowerCase r \<noteq> toLowerCase a) (strings_of ds) \<and> ds = map Str (strings_of ds)"
  by (induction a ds arbitrary: kept rule: filter_defaults.induct) (auto split: sum.splits)

lemma run_scored:
  "eval_rules lim fs a rules [] = Inr sc \<Longrightarrow> sc \<noteq> [] \<Longrightarrow>
   run lim fs rules d a mx = Inr (slice0 (map fst (sorted_by_score sc)) mx)"
  by (simp add: run_def)

lemma run_Inr_cases:
  assumes "run lim fs rules d a mx = Inr res"
  obtains (scored) sc where "eval_rules lim fs a rules [] = Inr sc" "sc \<noteq> []"
      "res = slice0 (map fst (sorted_by_score sc)) mx"
    | (defaults) ds where "eval_rules lim fs a rules [] = Inr []" "d = Arr ds"
      "ds = map Str (strings_of ds)"
      "res = slice0 (filter (\<lambda>r. toLowerCase r \<noteq> toLowerCase a) (strings_of ds)) mx"
    | (nothing) "eval_rules lim fs a rules [] = Inr []" "\<not> truthy d" "res = []"
proof -
  from assms obtain sc where sc: "eval_rules lim fs a rules [] = Inr sc"
    by (auto simp: run_def split: sum.splits)
  show thesis
  proof (cases "sc = []")
    case False
    show ?thesis
    proof (rule scored)
      show "eval_rules lim fs a rules [] = Inr sc" by (rule sc)
      show "sc \<noteq> []" by (rule False)
      show "res = slice0 (map fst (sorted_by_score sc)) mx"
        using sc False assms by (simp add: run_def)
    qed
  next
    case True
    note empty = this
    show ?thesis
    proof (cases "truthy d")
      case False
      show ?thesis
      proof (rule nothing)
        show "eval_rules lim fs a rules [] = Inr []" using sc empty by simp
        show "\<not> truthy d" by (rule False)
        show "res = []" using sc empty assms False by (simp add: run_def)
      qed
    next
      case True
      with sc empty assms obtain ds kept where
        d: "d = Arr ds" "filter_defaults a ds = Inr kept"
        by (auto simp: run_def split: jsval.splits sum.splits)
      with sc empty assms True have r: "res = slice0 kept mx"
        by (auto simp: run_def Let_def split: if_splits)
      from filter_defaults_eq [OF d(2)] r
      have "ds = map Str (strings_of ds)"
        "res = slice0 (filter (\<lambda>r. toLowerCase r \<noteq> toLowerCase a) (strings_of ds)) mx"
        by simp_all
      note k = this
      show ?thesis
      proof (rule defaults)
        show "eval_rules lim fs a rules [] = Inr []" using sc empty by simp
        show "d = Arr ds" by (rule d(1))
        show "ds = map Str (strings_of ds)" by (rule k(1))
        show "res = slice0 (filter (\<lambda>r. toLowerCase r \<noteq> toLowerCase a) (strings_of ds)) mx"
          by (rule k(2))
      qed
    qed
  qed
qed

lemma rule_matched_no_patterns: "rule_matched lim fs [] = Inr False"
  by (induction fs) simp_all

lemma eval_rules_append:
  "eval_rules lim fs a (rs1 @ rs2) sc =
     (case eval_rules lim fs a rs1 sc of Inl e \<Rightarrow> Inl e | Inr sc' \<Rightarrow> eval_rules lim fs a rs2 sc')"
  by (induction rs1 arbitrary: sc) (auto split: sum.splits)

lemma eval_rules_skip:
  assumes "patterns r = Arr [] \<or>
           users r = Arr [] \<and> (\<exists>b. rule_matched lim fs (as_array (patterns r)) = Inr b)"
  shows "eval_rules lim fs a (r # rs) sc = eval_rules lim fs a rs sc"
  using assms
proof
  assume "patterns r = Arr []"
  then show ?thesis by (simp add: as_array_def rule_matched_no_patterns)
next
  assume a: "users r = Arr [] \<and> (\<exists>b. rule_matched lim fs (as_array (patterns r)) = Inr b)"
  then obtain b where "rule_matched lim fs (as_array (patterns r)) = Inr b" by (elim exE conjE)
  with a show ?thesis by (simp add: as_array_def)
qed

lemma rule_matched_undefined: "fs \<noteq> [] \<Longrightarrow> rule_matched lim fs [Undefined] = Inl TypeError"
  by (cases fs) simp_all

lemma eval_rules_missing_patterns:
  "patterns r = Undefined \<Longrightarrow> fs \<noteq> [] \<Longrightarrow> eval_rules lim fs a (r # rs) sc = Inl TypeError"
  by (simp add: as_array_def rule_matched_undefined)

lemma eval_rules_missing_users:
  "users r = Undefined \<Longrightarrow> rule_matched lim fs (as_array (patterns r)) = Inr True \<Longrightarrow>
   eval_rules lim fs a (r # rs) sc = Inl TypeError"
  by (simp add: as_array_def)

lemma eval_rules_append_fails:
  assumes "\<And>sc'. \<exists>e. eval_rules lim fs a rs2 sc' = Inl e"
  shows "\<exists>e. eval_rules lim fs a (rs1 @ rs2) sc = Inl e"
proof (cases "eval_rules lim fs a rs1 sc")
  case (Inl e)
  then show ?thesis by (simp add: eval_rules_append)
next
  case (Inr sc')
  with assms [of sc'] show ?thesis by (simp add: eval_rules_append)
qed

lemma run_eval_cong:
  "eval_rules lim fs a rules [] = eval_rules lim fs a rules' [] \<Longrightarrow> run lim fs rules d a mx = run lim fs rules' d a mx"
  by (simp add: run_def)

lemma run_configured:
  assumes "run lim fs rules d a mx = Inr res"
  shows "set res \<subseteq> set (matched_users lim fs rules) \<union> set (strings_of (as_array d))"
  using assms
proof (cases rule: run_Inr_cases)
  case (scored sc)
  have "set res \<subseteq> fst ` set sc"
    using set_slice0 [of "map fst (sorted_by_score sc)" mx] scored(3)
    by (simp add: set_sorted_by_score del: set_map)
  with eval_rules_keys [OF scored(1)] show ?thesis by auto
next
  case (defaults ds)
  with set_slice0 [of "filter (\<lambda>r. toLowerCase r \<noteq> toLowerCase a) (strings_of ds)" mx]
  show ?thesis by (auto simp: as_array_def)
next
  case nothing
  then show ?thesis by simp
qed

text \<open>The score of a user is the number of times the matching rules list it.\<close>

lemma get_score_update:
  "get_score (AList.update k v al) k' = (if k' = k then v else get_score al k')"
  by (simp add: get_score_def update_conv')

lemma add_reviewers_score:
  "add_reviewers a us sc = Inr sc' \<Longrightarrow>
   get_score sc' u =
     get_score sc u + (if toLowerCase u = toLowerCase a then 0 else count_list (strings_of us) u)"
proof (induction a us sc rule: add_reviewers.induct)
  case (1 a sc)
  then show ?case by simp
next
  case (2 a reviewer rest sc)
  show ?case
  proof (cases "toLowerCase reviewer = toLowerCase a")
    case True
    with 2 show ?thesis by auto
  next
    case False
    with 2 have "get_score sc' u =
        get_score (AList.update reviewer (get_score sc reviewer + 1) sc) u +
        (if toLowerCase u = toLowerCase a then 0 else count_list (strings_of rest) u)"
      by simp
    with False show ?thesis by (auto simp: get_score_update)
  qed
qed simp_all

lemma count_list_matched_users_Cons:
  "count_list (matched_users lim fs (r # rules)) u =
     (if rule_matched lim fs (as_array (patterns r)) = Inr True
      then count_list (strings_of (as_array (users r))) u else 0) +
     count_list (matched_users lim fs rules) u"
  by (simp add: matched_users_def)

lemma eval_rules_score:
  "eval_rules lim fs a rules sc = Inr sc' \<Longrightarrow>
   get_score sc' u =
     get_score sc u +
     (if toLowerCase u = toLowerCase a then 0 else count_list (matched_users lim fs rules) u)"
proof (induction rules arbitrary: sc)
  case Nil
  then show ?case by (simp add: matched_users_def)
next
  case (Cons r rules)
  from Cons.prems obtain m where m: "rule_matched lim fs (as_array (patterns r)) = Inr m"
    by (auto split: sum.splits)
  show ?case
  proof (cases m)
    case True
    with m Cons.prems obtain sc1 where
      sc1: "add_reviewers a (as_array (users r)) sc = Inr sc1" "eval_rules lim fs a rules sc1 = Inr sc'"
      by (auto split: sum.splits)
    from Cons.IH [OF sc1(2)] add_reviewers_score [OF sc1(1), of u] m True
    show ?thesis by (simp add: count_list_matched_users_Cons)
  next
    case False
    with m Cons.prems have "eval_rules lim fs a rules sc = Inr sc'" by simp
    from Cons.IH [OF this] m False show ?thesis by (simp add: count_list_matched_users_Cons)
  qed
qed

lemma map_of_key_score: "u \<in> fst ` set sc \<Longrightarrow> map_of sc u = Some (get_score sc u)"
proof -
  assume "u \<in> fst ` set sc"
  then obtain n where "map_of sc u = Some n"
    by (metis domD dom_map_of_conv_image_fst)
  then show ?thesis by (simp add: get_score_def)
qed

lemma slice0_all: "int (length xs) \<le> m \<Longrightarrow> slice0 xs (Some m) = xs"
  by (simp add: slice0_def Let_def min_def)

lemma length_sorted_by_score: "length (sorted_by_score sc) = length sc"
  by (simp add: sorted_by_score_def)

section \<open>The claims\<close>

text \<open>
  C1. The claim says that \<^verbatim>\<open>a/**/b\<close> matches \<^verbatim>\<open>a/b\<close>, \<^verbatim>\<open>a/x/b\<close> and \<^verbatim>\<open>a/x/y/b\<close>: a
  globstar between two separators may stand for no segment at all. The source turns the
  globstar into \<^verbatim>\<open>.*\<close> and keeps both separators, so the path needs two of them:
  \<^verbatim>\<open>a/**/b\<close> matches \<^verbatim>\<open>a/x/b\<close> and \<^verbatim>\<open>a/x/y/b\<close> but not \<^verbatim>\<open>a/b\<close>, and the pattern
  \<^verbatim>\<open>**/*.tsx\<close> of the README does not match a file \<^verbatim>\<open>Button.tsx\<close> at the root.
\<close>

theorem globstar_needs_both_separators:
  "matchPattern v8_limit ''a/b'' ''a/**/b'' = Inr False \<and>
   matchPattern v8_limit ''a/x/b'' ''a/**/b'' = Inr True \<and>
   matchPattern v8_limit ''a/x/y/b'' ''a/**/b'' = Inr True \<and>
   matchPattern v8_limit ''Button.tsx'' ''**/*.tsx'' = Inr False"
  by code_simp

text \<open>
  C2 (as amended). The claim says that as soon as a rule matches, the defaults are never
  used, even when every user of the matching rules is the author. The source falls back
  to the defaults whenever the score table is empty (line 121), so the statement holds
  when some matching rule lists a user other than the author: then every reviewer is a
  user of a matching rule, and the defaults have no influence on the result.
\<close>

theorem matched_rules_override_defaults:
  assumes "run limit changedFiles reviewers default_reviewers prAuthor maxReviewers = Inr res"
    and "r \<in> set reviewers"
    and "rule_matched limit changedFiles (as_array (patterns r)) = Inr True"
    and "Str u \<in> set (as_array (users r))"
    and "toLowerCase u \<noteq> toLowerCase prAuthor"
  shows "set res \<subseteq> set (matched_users limit changedFiles reviewers) \<and>
         run limit changedFiles reviewers other_defaults prAuthor maxReviewers = Inr res"
proof -
  from assms(1) obtain sc where sc: "eval_rules limit changedFiles prAuthor reviewers [] = Inr sc"
    by (auto simp: run_def split: sum.splits)
  have "u \<in> set (matched_users limit changedFiles reviewers)"
    using assms(2-4) by (auto simp: matched_users_def set_strings_of)
  with assms(5) eval_rules_keys [OF sc] have "u \<in> fst ` set sc" by simp
  then have ne: "sc \<noteq> []" by auto
  have res: "res = slice0 (map fst (sorted_by_score sc)) maxReviewers"
    using run_scored [OF sc ne] assms(1) by simp
  have "set res \<subseteq> fst ` set sc"
    using set_slice0 [of "map fst (sorted_by_score sc)" maxReviewers] res
    by (simp add: set_sorted_by_score del: set_map)
  with eval_rules_keys [OF sc] have "set res \<subseteq> set (matched_users limit changedFiles reviewers)"
    by auto
  with res run_scored [OF sc ne] show ?thesis by simp
qed

theorem matched_rules_override_defaults_witness:
  "run v8_limit [''infra/main.tf'']
       [\<lparr>patterns = Arr [Str ''*.tf''], users = Arr [Str ''ops'']\<rparr>,
        \<lparr>patterns = Arr [Str ''infra/**''], users = Arr [Str ''ops'', Str ''lead'']\<rparr>]
       (Arr [Str ''fallback'']) ''dev'' (Some 1) = Inr [''ops''] \<and>
   set [''ops''] \<subseteq> set (matched_users v8_limit [''infra/main.tf'']
       [\<lparr>patterns = Arr [Str ''*.tf''], users = Arr [Str ''ops'']\<rparr>,
        \<lparr>patterns = Arr [Str ''infra/**''], users = Arr [Str ''ops'', Str ''lead'']\<rparr>]) \<and>
   run v8_limit [''infra/main.tf'']
       [\<lparr>patterns = Arr [Str ''*.tf''], users = Arr [Str ''ops'']\<rparr>,
        \<lparr>patterns = Arr [Str ''infra/**''], users = Arr [Str ''ops'', Str ''lead'']\<rparr>]
       Undefined ''dev'' (Some 1) = Inr [''ops'']"
proof -
  let ?r2 = "\<lparr>patterns = Arr [Str ''infra/**''], users = Arr [Str ''ops'', Str ''lead'']\<rparr>"
  let ?rules = "[\<lparr>patterns = Arr [Str ''*.tf''], users = Arr [Str ''ops'']\<rparr>, ?r2]"
  have h1: "run v8_limit [''infra/main.tf''] ?rules (Arr [Str ''fallback'']) ''dev'' (Some 1) = Inr [''ops'']"
    by code_simp
  have h2: "?r2 \<in> set ?rules" by simp
  have h3: "rule_matched v8_limit [''infra/main.tf''] (as_array (patterns ?r2)) = Inr True" by code_simp
  have h4: "Str ''lead'' \<in> set (as_array (users ?r2))" by (simp add: as_array_def)
  have h5: "toLowerCase ''lead'' \<noteq> toLowerCase ''dev''" by code_simp
  from matched_rules_override_defaults [OF h1 h2 h3 h4 h5, of Undefined] h1
  show ?thesis by simp
qed

text \<open>
  C2 as stated fails when the only user of the matching rule is the author: the result is
  taken from the defaults.
\<close>

theorem all_users_excluded_counterexample:
  "rule_matched v8_limit [''a.js''] (as_array (Str ''*.js'')) = Inr True \<and>
   run v8_limit [''a.js''] [\<lparr>patterns = Str ''*.js'', users = Arr [Str ''bob'']\<rparr>]
       (Arr [Str ''carol'']) ''bob'' (Some 2) = Inr [''carol''] \<and>
   ''carol'' \<notin> set (matched_users v8_limit [''a.js''] [\<lparr>patterns = Str ''*.js'', users = Arr [Str ''bob'']\<rparr>])"
  by code_simp

text \<open>
  C3. Whatever the inputs, no reviewer of the result is equal to the author when both are
  put in lower case, whether the result comes from the rules or from the defaults.
\<close>

theorem run_excludes_author:
  assumes "run limit changedFiles reviewers default_reviewers prAuthor maxReviewers = Inr res"
  shows "\<forall>r\<in>set res. toLowerCase r \<noteq> toLowerCase prAuthor"
  using assms
proof (cases rule: run_Inr_cases)
  case (scored sc)
  from eval_rules_keys [OF scored(1)]
  have "\<forall>u\<in>fst ` set sc. toLowerCase u \<noteq> toLowerCase prAuthor" by simp
  moreover have "set res \<subseteq> fst ` set sc"
    using set_slice0 [of "map fst (sorted_by_score sc)" maxReviewers] scored(3)
    by (simp add: set_sorted_by_score del: set_map)
  ultimately show ?thesis by blast
next
  case (defaults ds)
  with set_slice0 [of "filter (\<lambda>r. toLowerCase r \<noteq> toLowerCase prAuthor) (strings_of ds)" maxReviewers]
  show ?thesis by auto
next
  case nothing
  then show ?thesis by simp
qed

theorem run_excludes_author_witness:
  "run v8_limit [''src/api/handler.go'']
       [\<lparr>patterns = Arr [Str ''src/api/**''], users = Arr [Str ''backend1'', Str ''backend2'']\<rparr>]
       Undefined ''Backend1'' (Some 2) = Inr [''backend2''] \<and>
   toLowerCase ''backend2'' \<noteq> toLowerCase ''Backend1''"
proof -
  have r: "run v8_limit [''src/api/handler.go'']
       [\<lparr>patterns = Arr [Str ''src/api/**''], users = Arr [Str ''backend1'', Str ''backend2'']\<rparr>]
       Undefined ''Backend1'' (Some 2) = Inr [''backend2'']"
    by code_simp
  from run_excludes_author [OF r] r show ?thesis by simp
qed

text \<open>
  C4 (as amended). The claim says that the result never has a duplicate, also when it comes
  from a defaults list with a duplicate. The keys of the score table are distinct, so a
  result that comes from the rules has no duplicate; the defaults are filtered and cut
  but not deduplicated, so a result that comes from the defaults has no duplicate when
  the configured defaults list has none.
\<close>

theorem reviewers_distinct:
  assumes "run limit changedFiles reviewers default_reviewers prAuthor maxReviewers = Inr res"
    and "eval_rules limit changedFiles prAuthor reviewers [] = Inr [] \<longrightarrow>
         (\<forall>ds. default_reviewers = Arr ds \<longrightarrow> distinct ds)"
  shows "distinct res"
  using assms(1)
proof (cases rule: run_Inr_cases)
  case (scored sc)
  from eval_rules_distinct [OF scored(1)] have "distinct (map fst sc)" by simp
  with scored(3) show ?thesis by (simp add: distinct_slice0 distinct_sorted_by_score)
next
  case (defaults ds)
  with assms(2) have "distinct ds" by simp
  with defaults(3) have "distinct (strings_of ds)" by (metis distinct_map)
  with defaults(4) show ?thesis by (simp add: distinct_slice0)
next
  case nothing
  then show ?thesis by simp
qed

theorem reviewers_distinct_witness:
  "eval_rules v8_limit [''a.js''] ''author''
       [\<lparr>patterns = Str ''*.js'', users = Arr [Str ''alice'', Str ''bob'', Str ''alice'']\<rparr>] []
     = Inr [(''alice'', 2), (''bob'', 1)] \<and>
   run v8_limit [''a.js''] [\<lparr>patterns = Str ''*.js'', users = Arr [Str ''alice'', Str ''bob'', Str ''alice'']\<rparr>]
       (Arr [Str ''lead'', Str ''lead'']) ''author'' (Some 2) = Inr [''alice'', ''bob''] \<and>
   distinct [''alice'', ''bob'']"
proof -
  let ?rules = "[\<lparr>patterns = Str ''*.js'', users = Arr [Str ''alice'', Str ''bob'', Str ''alice'']\<rparr>]"
  have e: "eval_rules v8_limit [''a.js''] ''author'' ?rules [] = Inr [(''alice'', 2), (''bob'', 1)]"
    by code_simp
  have r: "run v8_limit [''a.js''] ?rules (Arr [Str ''lead'', Str ''lead'']) ''author'' (Some 2) = Inr [''alice'', ''bob'']"
    by code_simp
  have h: "eval_rules v8_limit [''a.js''] ''author'' ?rules [] = Inr [] \<longrightarrow>
      (\<forall>ds. Arr [Str ''lead'', Str ''lead''] = Arr ds \<longrightarrow> distinct ds)"
    by (simp add: e del: eval_rules.simps)
  from reviewers_distinct [OF r h] e r show ?thesis by simp
qed

text \<open>
  C4 as stated fails for a defaults list with a duplicate when no rule matches.
\<close>

theorem duplicate_defaults_counterexample:
  "run v8_limit [''README.md''] [\<lparr>patterns = Arr [Str ''src/**''], users = Arr [Str ''dev'']\<rparr>]
       (Arr [Str ''lead'', Str ''lead'']) ''author'' (Some 2) = Inr [''lead'', ''lead'']"
  by code_simp

text \<open>
  C5 (as amended). The claim says that the result has at most \<^verbatim>\<open>maxReviewers\<close> entries
  and is empty for every \<^verbatim>\<open>maxReviewers\<close> below 1. This holds for every
  \<^verbatim>\<open>maxReviewers\<close> from 0 on (so the result is empty at 0); \<^verbatim>\<open>slice\<close> reads a negative
  end as counted from the end of the array.
\<close>

theorem reviewers_at_most_max:
  assumes "run limit changedFiles reviewers default_reviewers prAuthor (Some m) = Inr res"
    and "0 \<le> m"
  shows "int (length res) \<le> m"
  using assms(1)
proof (cases rule: run_Inr_cases)
  case (scored sc)
  with assms(2) show ?thesis by (simp add: length_slice0)
next
  case (defaults ds)
  with assms(2) show ?thesis by (simp add: length_slice0)
next
  case nothing
  with assms(2) show ?thesis by simp
qed

theorem reviewers_at_most_max_witness:
  "run v8_limit [''infra/main.tf'']
       [\<lparr>patterns = Arr [Str ''*.tf''], users = Arr [Str ''ops'']\<rparr>,
        \<lparr>patterns = Arr [Str ''infra/**''], users = Arr [Str ''ops'', Str ''lead'']\<rparr>]
       Undefined ''dev'' (Some 1) = Inr [''ops''] \<and> (0::int) \<le> 1 \<and> int (length [''ops'']) \<le> 1"
proof -
  have r: "run v8_limit [''infra/main.tf'']
       [\<lparr>patterns = Arr [Str ''*.tf''], users = Arr [Str ''ops'']\<rparr>,
        \<lparr>patterns = Arr [Str ''infra/**''], users = Arr [Str ''ops'', Str ''lead'']\<rparr>]
       Undefined ''dev'' (Some 1) = Inr [''ops'']"
    by code_simp
  have z: "(0::int) \<le> 1" by simp
  from reviewers_at_most_max [OF r z] r show ?thesis by simp
qed

text \<open>
  C5 as stated fails at \<^verbatim>\<open>maxReviewers = -1\<close>: \<^verbatim>\<open>slice(0, -1)\<close> drops the last
  candidate only.
\<close>

theorem negative_max_counterexample:
  "run v8_limit [''README.md''] [] (Arr [Str ''a'', Str ''b'', Str ''c'']) ''author'' (Some (- 1)) = Inr [''a'', ''b'']"
  by code_simp

text \<open>
  C6. The claim says that a pattern starting with \<^verbatim>\<open>/\<close> matches from the root only. The
  source adds no \<^verbatim>\<open>^\<close> for such a pattern, so the search finds it anywhere:
  \<^verbatim>\<open>/src/a.js\<close> matches \<^verbatim>\<open>foo/src/a.js\<close>, and it does not match the root file
  \<^verbatim>\<open>src/a.js\<close>.
\<close>

theorem leading_slash_not_anchored:
  "matchPattern v8_limit ''foo/src/a.js'' ''/src/a.js'' = Inr True \<and>
   matchPattern v8_limit ''src/a.js'' ''/src/a.js'' = Inr False"
  by code_simp

text \<open>
  C7. The claim says that a matching rule adds 1 to the score of a user that it lists
  twice. The loop of lines 110-117 adds 1 for every entry of the list, so the user gets 2
  from the one rule.
\<close>

theorem duplicate_user_counted_twice:
  "eval_rules v8_limit [''a.js''] ''author''
     [\<lparr>patterns = Str ''*.js'', users = Arr [Str ''alice'', Str ''alice'']\<rparr>] []
   = Inr [(''alice'', 2)]"
  by code_simp

text \<open>
  C8 (as amended). The claim says that a rule with a missing or empty \<^verbatim>\<open>patterns\<close> or
  \<^verbatim>\<open>users\<close> field is passed over. This holds for an empty \<^verbatim>\<open>patterns\<close> list, and for
  an empty \<^verbatim>\<open>users\<close> list when matching the patterns of the rule throws nothing: the
  result is the one without the rule. A missing field is wrapped into \<^verbatim>\<open>[undefined]\<close> (lines 93-96), and the evaluation
  fails: for missing patterns as soon as there is a changed file, for missing users as
  soon as the rule matches; the exception is a \<^verbatim>\<open>TypeError\<close> when no earlier rule has
  failed before.
\<close>

theorem empty_fields_skipped_missing_fields_fail:
  "(patterns r = Arr [] \<or>
    users r = Arr [] \<and> (\<exists>b. rule_matched limit changedFiles (as_array (patterns r)) = Inr b) \<longrightarrow>
      run limit changedFiles (earlier @ r # later) default_reviewers prAuthor maxReviewers =
      run limit changedFiles (earlier @ later) default_reviewers prAuthor maxReviewers) \<and>
   (patterns r = Undefined \<and> changedFiles \<noteq> [] \<longrightarrow>
      run limit changedFiles (r # later) default_reviewers prAuthor maxReviewers = Inl TypeError \<and>
      (\<exists>e. run limit changedFiles (earlier @ r # later) default_reviewers prAuthor maxReviewers = Inl e)) \<and>
   (users r = Undefined \<and> rule_matched limit changedFiles (as_array (patterns r)) = Inr True \<longrightarrow>
      run limit changedFiles (r # later) default_reviewers prAuthor maxReviewers = Inl TypeError \<and>
      (\<exists>e. run limit changedFiles (earlier @ r # later) default_reviewers prAuthor maxReviewers = Inl e))"
proof (intro conjI impI)
  assume "patterns r = Arr [] \<or>
    users r = Arr [] \<and> (\<exists>b. rule_matched limit changedFiles (as_array (patterns r)) = Inr b)"
  note skip = eval_rules_skip [OF this]
  have "eval_rules limit changedFiles prAuthor (earlier @ r # later) [] =
        eval_rules limit changedFiles prAuthor (earlier @ later) []"
    by (cases "eval_rules limit changedFiles prAuthor earlier []")
       (simp_all add: eval_rules_append [of _ _ _ earlier] skip del: eval_rules.simps)
  then show "run limit changedFiles (earlier @ r # later) default_reviewers prAuthor maxReviewers =
      run limit changedFiles (earlier @ later) default_reviewers prAuthor maxReviewers"
    by (rule run_eval_cong)
next
  assume a: "patterns r = Undefined \<and> changedFiles \<noteq> []"
  then have f: "eval_rules limit changedFiles prAuthor (r # later) sc = Inl TypeError" for sc
    by (simp add: eval_rules_missing_patterns del: eval_rules.simps)
  from f [of "[]"]
  show "run limit changedFiles (r # later) default_reviewers prAuthor maxReviewers = Inl TypeError"
    by (simp add: run_def del: eval_rules.simps)
  have "\<exists>e. eval_rules limit changedFiles prAuthor (earlier @ r # later) [] = Inl e"
    by (rule eval_rules_append_fails) (simp add: f del: eval_rules.simps)
  then show "\<exists>e. run limit changedFiles (earlier @ r # later) default_reviewers prAuthor maxReviewers = Inl e"
    by (auto simp: run_def simp del: eval_rules.simps)
next
  assume a: "users r = Undefined \<and> rule_matched limit changedFiles (as_array (patterns r)) = Inr True"
  then have f: "eval_rules limit changedFiles prAuthor (r # later) sc = Inl TypeError" for sc
    by (simp add: eval_rules_missing_users del: eval_rules.simps)
  from f [of "[]"]
  show "run limit changedFiles (r # later) default_reviewers prAuthor maxReviewers = Inl TypeError"
    by (simp add: run_def del: eval_rules.simps)
  have "\<exists>e. eval_rules limit changedFiles prAuthor (earlier @ r # later) [] = Inl e"
    by (rule eval_rules_append_fails) (simp add: f del: eval_rules.simps)
  then show "\<exists>e. run limit changedFiles (earlier @ r # later) default_reviewers prAuthor maxReviewers = Inl e"
    by (auto simp: run_def simp del: eval_rules.simps)
qed

theorem empty_fields_skipped_missing_fields_fail_witness:
  "rule_matched v8_limit [''a.js''] (as_array (Str ''*.ts'')) = Inr False \<and>
   run v8_limit [''a.js'']
       ([\<lparr>patterns = Str ''*.js'', users = Str ''alice''\<rparr>] @
        \<lparr>patterns = Str ''*.ts'', users = Arr []\<rparr> #
        [\<lparr>patterns = Str ''a.*'', users = Str ''bob''\<rparr>])
       Undefined ''author'' (Some 2) = Inr [''alice'', ''bob''] \<and>
   run v8_limit [''a.js'']
       ([\<lparr>patterns = Str ''*.js'', users = Str ''alice''\<rparr>] @
        [\<lparr>patterns = Str ''a.*'', users = Str ''bob''\<rparr>])
       Undefined ''author'' (Some 2) = Inr [''alice'', ''bob''] \<and>
   run v8_limit [''a.js''] (\<lparr>patterns = Undefined, users = Str ''alice''\<rparr> # [])
       Undefined ''author'' (Some 2) = Inl TypeError \<and>
   rule_matched v8_limit [''a.js''] (as_array (Str ''*.js'')) = Inr True \<and>
   run v8_limit [''a.js''] (\<lparr>patterns = Str ''*.js'', users = Undefined\<rparr> # [])
       Undefined ''author'' (Some 2) = Inl TypeError"
proof -
  let ?e = "\<lparr>patterns = Str ''*.ts'', users = Arr []\<rparr>"
  let ?p = "\<lparr>patterns = Undefined, users = Str ''alice''\<rparr>"
  let ?u = "\<lparr>patterns = Str ''*.js'', users = Undefined\<rparr>"
  let ?one = "[\<lparr>patterns = Str ''*.js'', users = Str ''alice''\<rparr>]"
  let ?two = "[\<lparr>patterns = Str ''a.*'', users = Str ''bob''\<rparr>]"
  have r: "run v8_limit [''a.js''] (?one @ ?two) Undefined ''author'' (Some 2) = Inr [''alice'', ''bob'']"
    by code_simp
  have n: "rule_matched v8_limit [''a.js''] (as_array (Str ''*.ts'')) = Inr False" by code_simp
  have m: "rule_matched v8_limit [''a.js''] (as_array (Str ''*.js'')) = Inr True" by code_simp
  note t1 = empty_fields_skipped_missing_fields_fail
         [where r = ?e and earlier = ?one and later = ?two and limit = v8_limit
            and changedFiles = "[''a.js'']" and default_reviewers = Undefined
            and prAuthor = "''author''" and maxReviewers = "Some 2"]
  note t2 = empty_fields_skipped_missing_fields_fail
         [where r = ?p and earlier = "[]" and later = "[]" and limit = v8_limit
            and changedFiles = "[''a.js'']" and default_reviewers = Undefined
            and prAuthor = "''author''" and maxReviewers = "Some 2"]
  note t3 = empty_fields_skipped_missing_fields_fail
         [where r = ?u and earlier = "[]" and later = "[]" and limit = v8_limit
            and changedFiles = "[''a.js'']" and default_reviewers = Undefined
            and prAuthor = "''author''" and maxReviewers = "Some 2"]
  have h1: "patterns ?e = Arr [] \<or>
      users ?e = Arr [] \<and> (\<exists>b. rule_matched v8_limit [''a.js''] (as_array (patterns ?e)) = Inr b)"
  proof (rule disjI2, rule conjI)
    show "users ?e = Arr []" by simp
    show "\<exists>b. rule_matched v8_limit [''a.js''] (as_array (patterns ?e)) = Inr b"
      by (rule exI [of _ False]) (use n in \<open>simp del: rule_matched.simps\<close>)
  qed
  have e1: "run v8_limit [''a.js''] (?one @ ?e # ?two) Undefined ''author'' (Some 2) =
            run v8_limit [''a.js''] (?one @ ?two) Undefined ''author'' (Some 2)"
    by (rule t1 [THEN conjunct1, THEN mp]) (rule h1)
  have e2: "run v8_limit [''a.js''] (?p # []) Undefined ''author'' (Some 2) = Inl TypeError"
    by (rule t2 [THEN conjunct2, THEN conjunct1, THEN mp, THEN conjunct1]) simp
  have h3: "users ?u = Undefined \<and> rule_matched v8_limit [''a.js''] (as_array (patterns ?u)) = Inr True"
    using m by (simp del: rule_matched.simps)
  have e3: "run v8_limit [''a.js''] (?u # []) Undefined ''author'' (Some 2) = Inl TypeError"
    by (rule t3 [THEN conjunct2, THEN conjunct2, THEN mp, THEN conjunct1]) (rule h3)
  from e1 r have e1': "run v8_limit [''a.js''] (?one @ ?e # ?two) Undefined ''author'' (Some 2) =
      Inr [''alice'', ''bob'']"
    by (rule trans)
  show ?thesis by (intro conjI n e1' r e2 m e3)
qed

text \<open>
  C8 as stated fails for a rule without \<^verbatim>\<open>patterns\<close>: the second rule is never
  evaluated.
\<close>

theorem missing_patterns_counterexample:
  "run v8_limit [''a.js'']
       [\<lparr>patterns = Undefined, users = Arr [Str ''alice'']\<rparr>,
        \<lparr>patterns = Str ''*.js'', users = Str ''bob''\<rparr>]
       Undefined ''author'' (Some 2) = Inl TypeError"
  by code_simp




text \<open>
  C10. The score table is keyed by the text of a user as the configuration writes it. For
  every rule set and any two different texts \<open>u\<close> and \<open>v\<close> among the users of the
  matching rules, neither of them the author (in particular two spellings of one name
  that differ in case only): each has its own entry, whose score is the number of times
  the matching rules list exactly this text; both are in the result when
  \<^verbatim>\<open>maxReviewers\<close> is at least the size of the table; and every reviewer of any
  result is a user of a matching rule or an entry of the defaults, written as configured.
\<close>

theorem casing_kept_apart:
  assumes "eval_rules limit changedFiles prAuthor reviewers [] = Inr reviewerScores"
    and "u \<in> set (matched_users limit changedFiles reviewers)"
    and "v \<in> set (matched_users limit changedFiles reviewers)"
    and "u \<noteq> v"
    and "toLowerCase u \<noteq> toLowerCase prAuthor"
    and "toLowerCase v \<noteq> toLowerCase prAuthor"
  shows "map_of reviewerScores u = Some (count_list (matched_users limit changedFiles reviewers) u) \<and>
         map_of reviewerScores v = Some (count_list (matched_users limit changedFiles reviewers) v) \<and>
         (int (length reviewerScores) \<le> m \<longrightarrow>
            (\<exists>res. run limit changedFiles reviewers default_reviewers prAuthor (Some m) = Inr res \<and>
                   u \<in> set res \<and> v \<in> set res \<and> distinct res)) \<and>
         (run limit changedFiles reviewers default_reviewers prAuthor maxReviewers = Inr res' \<longrightarrow>
            set res' \<subseteq> set (matched_users limit changedFiles reviewers) \<union>
                      set (strings_of (as_array default_reviewers)))"
proof (intro conjI impI)
  let ?mu = "matched_users limit changedFiles reviewers"
  have keys: "fst ` set reviewerScores = {w \<in> set ?mu. toLowerCase w \<noteq> toLowerCase prAuthor}"
    using eval_rules_keys [OF assms(1)] by simp
  have score: "get_score reviewerScores w = count_list ?mu w"
    if "toLowerCase w \<noteq> toLowerCase prAuthor" for w
    using eval_rules_score [OF assms(1), of w] that by (simp add: get_score_def)
  from keys assms(2,5) have ku: "u \<in> fst ` set reviewerScores" by simp
  from keys assms(3,6) have kv: "v \<in> fst ` set reviewerScores" by simp
  from map_of_key_score [OF ku] score [OF assms(5)]
  show "map_of reviewerScores u = Some (count_list ?mu u)" by simp
  from map_of_key_score [OF kv] score [OF assms(6)]
  show "map_of reviewerScores v = Some (count_list ?mu v)" by simp
  from ku have ne: "reviewerScores \<noteq> []" by auto
  have d: "distinct (map fst (sorted_by_score reviewerScores))"
    using eval_rules_distinct [OF assms(1)] by (simp add: distinct_sorted_by_score)
  {
    assume "int (length reviewerScores) \<le> m"
    then have "slice0 (map fst (sorted_by_score reviewerScores)) (Some m) =
               map fst (sorted_by_score reviewerScores)"
      by (simp add: slice0_all length_sorted_by_score)
    with run_scored [OF assms(1) ne, of default_reviewers "Some m"]
    have r: "run limit changedFiles reviewers default_reviewers prAuthor (Some m) =
             Inr (map fst (sorted_by_score reviewerScores))"
      by simp
    have s: "set (map fst (sorted_by_score reviewerScores)) = fst ` set reviewerScores"
      by (rule set_sorted_by_score)
    show "\<exists>res. run limit changedFiles reviewers default_reviewers prAuthor (Some m) = Inr res \<and>
                u \<in> set res \<and> v \<in> set res \<and> distinct res"
      by (rule exI [of _ "map fst (sorted_by_score reviewerScores)"])
         (use r s ku kv d in \<open>simp del: set_map\<close>)
  }
  {
    assume "run limit changedFiles reviewers default_reviewers prAuthor maxReviewers = Inr res'"
    then show "set res' \<subseteq> set ?mu \<union> set (strings_of (as_array default_reviewers))"
      by (rule run_configured)
  }
qed

theorem casing_kept_apart_witness:
  "eval_rules v8_limit [''a.js''] ''bob''
       [\<lparr>patterns = Str ''*.js'', users = Arr [Str ''Alice'']\<rparr>,
        \<lparr>patterns = Str ''a.*'', users = Arr [Str ''alice'']\<rparr>,
        \<lparr>patterns = Str ''*.*'', users = Arr [Str ''alice'', Str ''Bob'']\<rparr>] []
     = Inr [(''Alice'', 1), (''alice'', 2)] \<and>
   toLowerCase ''Alice'' = toLowerCase ''alice'' \<and>
   map_of [(''Alice'', 1::nat), (''alice'', 2)] ''Alice'' = Some 1 \<and>
   map_of [(''Alice'', 1::nat), (''alice'', 2)] ''alice'' = Some 2 \<and>
   run v8_limit [''a.js'']
       [\<lparr>patterns = Str ''*.js'', users = Arr [Str ''Alice'']\<rparr>,
        \<lparr>patterns = Str ''a.*'', users = Arr [Str ''alice'']\<rparr>,
        \<lparr>patterns = Str ''*.*'', users = Arr [Str ''alice'', Str ''Bob'']\<rparr>]
       Undefined ''bob'' (Some 2) = Inr [''alice'', ''Alice'']"
proof -
  let ?rules = "[\<lparr>patterns = Str ''*.js'', users = Arr [Str ''Alice'']\<rparr>,
        \<lparr>patterns = Str ''a.*'', users = Arr [Str ''alice'']\<rparr>,
        \<lparr>patterns = Str ''*.*'', users = Arr [Str ''alice'', Str ''Bob'']\<rparr>]"
  have e: "eval_rules v8_limit [''a.js''] ''bob'' ?rules [] = Inr [(''Alice'', 1), (''alice'', 2)]"
    by code_simp
  have mu: "matched_users v8_limit [''a.js''] ?rules = [''Alice'', ''alice'', ''alice'', ''Bob'']"
    by code_simp
  have u: "''Alice'' \<in> set (matched_users v8_limit [''a.js''] ?rules)" by (simp only: mu) simp
  have v: "''alice'' \<in> set (matched_users v8_limit [''a.js''] ?rules)" by (simp only: mu) simp
  have ne: "''Alice'' \<noteq> ''alice''" by simp
  have l1: "toLowerCase ''Alice'' \<noteq> toLowerCase ''bob''" by code_simp
  have l2: "toLowerCase ''alice'' \<noteq> toLowerCase ''bob''" by code_simp
  have l3: "toLowerCase ''Alice'' = toLowerCase ''alice''" by code_simp
  have r: "run v8_limit [''a.js''] ?rules Undefined ''bob'' (Some 2) = Inr [''alice'', ''Alice'']"
    by code_simp
  note t = casing_kept_apart [OF e u v ne l1 l2, where m = 2 and default_reviewers = Undefined]
  have c1: "map_of [(''Alice'', 1::nat), (''alice'', 2)] ''Alice'' = Some 1"
    using t [THEN conjunct1] by (simp only: mu) simp
  have c2: "map_of [(''Alice'', 1::nat), (''alice'', 2)] ''alice'' = Some 2"
    using t [THEN conjunct2, THEN conjunct1] by (simp only: mu) simp
  show ?thesis by (intro conjI e l3 c1 c2 r)
qed

end
